theory Spec2Isabelle
  imports Main
begin

section \<open>Wire vocabulary (types/pm2.ts, types/websocket.ts)\<close>

text \<open>
  JavaScript numbers that carry identifiers, counters and millisecond timestamps are
  modelled as \<open>int\<close> or \<open>nat\<close>. Values the code obtains from its environment
  (\<open>uuidv4()\<close>, \<open>Date.now()\<close>) are parameters of the functions that use them.
\<close>

datatype logType = Out | Err | PM2

record LogEntry =
  id' :: string
  processId :: int
  processName :: string
  type' :: logType
  message :: string
  timestamp :: int

datatype PM2Status = Online | Stopping | Stopped | Launching | Errored | OneLaunchStatus

record PM2Process =
  pm_id :: int
  name :: string
  pid :: int
  status :: PM2Status
  memory :: nat
  cpu :: nat

datatype WSMessageType =
    PROCESS_LIST_UPDATE | PROCESS_EVENT | LOG_MESSAGE | METRICS_UPDATE
  | SUBSCRIBE_LOGS | UNSUBSCRIBE_LOGS | CONNECTION_STATUS | ERROR

text \<open>
  The \<open>data\<close> member of a server message, one constructor per payload interface.
  \<open>ProcessEventData\<close> carries processId, processName, event and timestamp;
  \<open>ConnectionStatusData\<close> carries connected and pm2Connected.
\<close>

datatype WSData =
    ProcessListUpdateData "PM2Process list"
  | ProcessEventData int string string int
  | LogMessageData LogEntry
  | ConnectionStatusData bool bool
  | ErrorData string

record WSMessage =
  msg_type :: WSMessageType
  msg_data :: WSData
  msg_timestamp :: int

section \<open>Logger\<close>

text \<open>
  Calls of the shared logger are recorded in order. A record is the level and the
  fragments of the message: the fixed text of the template and the interpolated values.
\<close>

datatype logLevel = LDebug | LInfo | LWarn | LError

datatype logArg = Txt string | Num int

type_synonym logRecord = "logLevel \<times> logArg list"

section \<open>Broadcast hub (websocket/server.ts, class WebSocketManager)\<close>

datatype subscription = All | Pid int

datatype readyState = CONNECTING | OPEN | CLOSING | CLOSED

text \<open>
  An \<open>ExtendedWebSocket\<close>. The fields \<open>isAlive\<close> and \<open>subscriptions\<close> are the ones
  the manager adds; \<open>readyState\<close> is read from the transport. The transport itself is
  the external \<open>ws\<close> package: the model records what the manager asks of it.
  \<open>sendThrows\<close> says whether \<open>ws.send\<close> throws on this socket, \<open>sent\<close> lists the
  messages \<open>ws.send\<close> accepted, \<open>pings\<close> counts the calls of \<open>ws.ping()\<close> and
  \<open>terminated\<close> records a call of \<open>ws.terminate()\<close>.
\<close>

record ExtendedWebSocket =
  isAlive :: bool
  subscriptions :: "subscription set"
  readyState :: readyState
  sendThrows :: bool
  sent :: "WSMessage list"
  pings :: nat
  terminated :: bool

text \<open>
  The manager. \<open>clients\<close> is the JavaScript \<open>Set\<close> of socket objects in insertion
  order, as a list of object references; \<open>sockets\<close> is the store that maps a reference
  to the object it denotes, since the event handlers of a socket keep mutating the
  object after it has left the set.
\<close>

record WebSocketManager =
  clients :: "nat list"
  sockets :: "nat \<Rightarrow> ExtendedWebSocket"
  ws_log :: "logRecord list"

definition set_add :: "nat \<Rightarrow> nat list \<Rightarrow> nat list" where
  "set_add ws cs = (if ws \<in> set cs then cs else cs @ [ws])"

definition set_delete :: "nat \<Rightarrow> nat list \<Rightarrow> nat list" where
  "set_delete ws cs = filter (\<lambda>c. c \<noteq> ws) cs"

definition sendToClient :: "nat \<Rightarrow> WSMessage \<Rightarrow> WebSocketManager \<Rightarrow> WebSocketManager" where
  "sendToClient ws m s =
     (if readyState (sockets s ws) = OPEN then
        (if sendThrows (sockets s ws)
         then s\<lparr>ws_log := ws_log s @ [(LError, [Txt ''Failed to send message to client''])]\<rparr>
         else s\<lparr>sockets := (sockets s)(ws := (sockets s ws)\<lparr>sent := sent (sockets s ws) @ [m]\<rparr>)\<rparr>)
      else s)"

definition broadcast :: "WSMessage \<Rightarrow> WebSocketManager \<Rightarrow> WebSocketManager" where
  "broadcast m s = foldl (\<lambda>s' client. sendToClient client m s') s (clients s)"

definition broadcastToSubscribers ::
    "int \<Rightarrow> WSMessage \<Rightarrow> WebSocketManager \<Rightarrow> WebSocketManager" where
  "broadcastToSubscribers p m s =
     foldl (\<lambda>s' client.
              if All \<in> subscriptions (sockets s' client) \<or> Pid p \<in> subscriptions (sockets s' client)
              then sendToClient client m s' else s')
           s (clients s)"

text \<open>
  \<open>handleConnection\<close>: the new socket is marked alive, subscribed to \<open>'all'\<close>, added to
  the set and sent the connection status. \<open>now\<close> is \<open>Date.now()\<close>.
\<close>

definition handleConnection :: "nat \<Rightarrow> int \<Rightarrow> WebSocketManager \<Rightarrow> WebSocketManager" where
  "handleConnection ws now s =
     (let s1 = s\<lparr>sockets := (sockets s)(ws := (sockets s ws)\<lparr>isAlive := True, subscriptions := {All}\<rparr>),
                  clients := set_add ws (clients s)\<rparr>;
          s2 = s1\<lparr>ws_log := ws_log s1 @
                 [(LInfo, [Txt ''WebSocket client connected. Total clients: '',
                           Num (int (length (clients s1)))])]\<rparr>
      in sendToClient ws
           \<lparr>msg_type = CONNECTION_STATUS, msg_data = ConnectionStatusData True True,
            msg_timestamp = now\<rparr> s2)"

text \<open>The handlers \<open>handleConnection\<close> registers on the socket.\<close>

definition on_pong :: "nat \<Rightarrow> WebSocketManager \<Rightarrow> WebSocketManager" where
  "on_pong ws s = s\<lparr>sockets := (sockets s)(ws := (sockets s ws)\<lparr>isAlive := True\<rparr>)\<rparr>"

definition on_close :: "nat \<Rightarrow> WebSocketManager \<Rightarrow> WebSocketManager" where
  "on_close ws s =
     (let s1 = s\<lparr>clients := set_delete ws (clients s)\<rparr>
      in s1\<lparr>ws_log := ws_log s1 @
             [(LInfo, [Txt ''WebSocket client disconnected. Total clients: '',
                       Num (int (length (clients s1)))])]\<rparr>)"

definition on_error :: "nat \<Rightarrow> WebSocketManager \<Rightarrow> WebSocketManager" where
  "on_error ws s =
     (s\<lparr>ws_log := ws_log s @ [(LError, [Txt ''WebSocket client error''])]\<rparr>)
       \<lparr>clients := set_delete ws (clients s)\<rparr>"

text \<open>
  \<open>handleMessage\<close>. The argument is what \<open>JSON.parse(data.toString())\<close> yields:
  \<open>Unparsable\<close> when parsing throws or the value has no members to read, otherwise the
  \<open>type\<close> string and the \<open>data\<close> member. \<open>NoData\<close> is a missing \<open>data\<close>, on which
  the destructuring \<open>const { processId } = message.data\<close> throws inside the \<open>try\<close>;
  otherwise \<open>processId\<close> is of its declared type, a number or \<open>'all'\<close>.
\<close>

datatype clientData = NoData | ProcessIdData subscription

datatype inbound = Unparsable | Parsed string clientData

definition invalidFormat :: "nat \<Rightarrow> int \<Rightarrow> WebSocketManager \<Rightarrow> WebSocketManager" where
  "invalidFormat ws now s =
     sendToClient ws
       \<lparr>msg_type = ERROR, msg_data = ErrorData ''Invalid message format'', msg_timestamp = now\<rparr>
       (s\<lparr>ws_log := ws_log s @ [(LError, [Txt ''Failed to parse WebSocket message''])]\<rparr>)"

fun logArg_of :: "subscription \<Rightarrow> logArg" where
  "logArg_of All = Txt ''all''"
| "logArg_of (Pid p) = Num p"

definition handleMessage ::
    "nat \<Rightarrow> inbound \<Rightarrow> int \<Rightarrow> WebSocketManager \<Rightarrow> WebSocketManager" where
  "handleMessage ws inb now s =
     (case inb of
        Unparsable \<Rightarrow> invalidFormat ws now s
      | Parsed ty d \<Rightarrow>
          if ty = ''SUBSCRIBE_LOGS'' then
            (case d of
               NoData \<Rightarrow> invalidFormat ws now s
             | ProcessIdData p \<Rightarrow>
                 s\<lparr>sockets := (sockets s)(ws := (sockets s ws)
                       \<lparr>subscriptions := insert p (subscriptions (sockets s ws))\<rparr>),
                   ws_log := ws_log s @
                     [(LDebug, [Txt ''Client subscribed to logs for process '', logArg_of p])]\<rparr>)
          else if ty = ''UNSUBSCRIBE_LOGS'' then
            (case d of
               NoData \<Rightarrow> invalidFormat ws now s
             | ProcessIdData p \<Rightarrow>
                 s\<lparr>sockets := (sockets s)(ws := (sockets s ws)
                       \<lparr>subscriptions := subscriptions (sockets s ws) - {p}\<rparr>),
                   ws_log := ws_log s @
                     [(LDebug, [Txt ''Client unsubscribed from logs for process '', logArg_of p])]\<rparr>)
          else s\<lparr>ws_log := ws_log s @ [(LWarn, [Txt ''Unknown message type: '', Txt ty])]\<rparr>)"

text \<open>
  \<open>checkHeartbeat\<close>: one pass over the set. A socket that is not alive is terminated
  and deleted; any other is marked not alive and pinged. Deleting the element being
  visited does not disturb the iteration of a JavaScript \<open>Set\<close>.
\<close>

definition heartbeat_visit :: "nat \<Rightarrow> WebSocketManager \<Rightarrow> WebSocketManager" where
  "heartbeat_visit ws s =
     (if \<not> isAlive (sockets s ws) then
        s\<lparr>ws_log := ws_log s @ [(LDebug, [Txt ''Terminating unresponsive WebSocket client''])],
          sockets := (sockets s)(ws := (sockets s ws)\<lparr>terminated := True\<rparr>),
          clients := set_delete ws (clients s)\<rparr>
      else
        s\<lparr>sockets := (sockets s)(ws := (sockets s ws)
              \<lparr>isAlive := False, pings := Suc (pings (sockets s ws))\<rparr>)\<rparr>)"

definition checkHeartbeat :: "WebSocketManager \<Rightarrow> WebSocketManager" where
  "checkHeartbeat s = foldl (\<lambda>s' ws. heartbeat_visit ws s') s (clients s)"

section \<open>Event translator (pm2/eventBus.ts, class PM2EventBus)\<close>

text \<open>
  A log packet and a process event packet of the daemon's bus. \<open>at\<close> is \<open>0\<close> when the
  daemon supplied no timestamp (any falsy value selects \<open>Date.now()\<close>).
\<close>

record PM2LogPacket =
  lp_pm_id :: int
  lp_name :: string
  lp_namespace :: string
  lp_data :: string
  lp_at :: int

record PM2ProcessEventPacket =
  ep_event :: string
  ep_pm_id :: int
  ep_name :: string
  ep_pid :: int
  ep_at :: int

text \<open>
  \<open>pendingLists\<close> counts the calls of \<open>pm2API.list()\<close> made by \<open>broadcastProcessList\<close>
  whose promise has not settled yet; \<open>metricsInterval\<close> says whether the 2 s timer is set.
\<close>

record PM2EventBus =
  logBuffer :: "LogEntry list"
  maxBufferSize :: nat
  metricsInterval :: bool
  pendingLists :: nat
  bus_log :: "logRecord list"

definition PM2EventBus_init :: PM2EventBus where
  "PM2EventBus_init =
     \<lparr>logBuffer = [], maxBufferSize = 10000, metricsInterval = False, pendingLists = 0,
      bus_log = []\<rparr>"

definition WebSocketManager_init :: WebSocketManager where
  "WebSocketManager_init =
     \<lparr>clients = [],
      sockets = (\<lambda>_. \<lparr>isAlive = False, subscriptions = {}, readyState = OPEN,
                        sendThrows = False, sent = [], pings = 0, terminated = False\<rparr>),
      ws_log = []\<rparr>"

type_synonym relay = "PM2EventBus \<times> WebSocketManager"

definition mkLogEntry :: "PM2LogPacket \<Rightarrow> logType \<Rightarrow> string \<Rightarrow> int \<Rightarrow> LogEntry" where
  "mkLogEntry packet ty uuid now =
     \<lparr>id' = uuid, processId = lp_pm_id packet, processName = lp_name packet, type' = ty,
      message = lp_data packet,
      timestamp = (if lp_at packet \<noteq> 0 then lp_at packet else now)\<rparr>"

text \<open>
  \<open>handleLog\<close>: \<open>push\<close>, then one \<open>shift\<close> when the length exceeds \<open>maxBufferSize\<close>,
  then the fan-out to the subscribers of the packet's process. \<open>uuid\<close> is \<open>uuidv4()\<close>,
  \<open>now\<close> and \<open>now2\<close> are the two readings of \<open>Date.now()\<close>.
\<close>

definition handleLog ::
    "PM2LogPacket \<Rightarrow> logType \<Rightarrow> string \<Rightarrow> int \<Rightarrow> int \<Rightarrow> relay \<Rightarrow> relay" where
  "handleLog packet ty uuid now now2 r =
     (let logEntry = mkLogEntry packet ty uuid now;
          pushed = logBuffer (fst r) @ [logEntry];
          buf = (if length pushed > maxBufferSize (fst r) then tl pushed else pushed)
      in ((fst r)\<lparr>logBuffer := buf\<rparr>,
          broadcastToSubscribers (lp_pm_id packet)
            \<lparr>msg_type = LOG_MESSAGE, msg_data = LogMessageData logEntry, msg_timestamp = now2\<rparr>
            (snd r)))"

text \<open>
  \<open>broadcastProcessList\<close> is asynchronous. Its first part runs up to the \<open>await\<close>
  and calls \<open>pm2API.list()\<close>; its second part runs when that promise settles, with
  the outcome of the call: the process list, or a rejection (of the daemon's \<open>list\<close>
  or of the \<open>ensureConnected\<close> before it), which the \<open>catch\<close> logs.
\<close>

datatype listOutcome = ListRejected | ListResolved "PM2Process list"

definition broadcastProcessList :: "relay \<Rightarrow> relay" where
  "broadcastProcessList r = ((fst r)\<lparr>pendingLists := Suc (pendingLists (fst r))\<rparr>, snd r)"

definition broadcastProcessList_settled :: "listOutcome \<Rightarrow> int \<Rightarrow> relay \<Rightarrow> relay" where
  "broadcastProcessList_settled outcome now r =
     (case outcome of
        ListResolved ps \<Rightarrow>
          ((fst r)\<lparr>pendingLists := pendingLists (fst r) - 1\<rparr>,
           broadcast \<lparr>msg_type = PROCESS_LIST_UPDATE, msg_data = ProcessListUpdateData ps,
                      msg_timestamp = now\<rparr> (snd r))
      | ListRejected \<Rightarrow>
          ((fst r)\<lparr>pendingLists := pendingLists (fst r) - 1,
                   bus_log := bus_log (fst r) @ [(LError, [Txt ''Failed to broadcast process list''])]\<rparr>,
           snd r))"

text \<open>
  The listener \<open>setupProcessEventHandlers\<close> registers for \<open>process:event\<close>: it logs,
  broadcasts a \<open>PROCESS_EVENT\<close> to every client and calls \<open>broadcastProcessList\<close>.
\<close>

definition on_process_event :: "PM2ProcessEventPacket \<Rightarrow> int \<Rightarrow> int \<Rightarrow> relay \<Rightarrow> relay" where
  "on_process_event packet now now2 r =
     (let b1 = (fst r)\<lparr>bus_log := bus_log (fst r) @
                  [(LInfo, [Txt ''Process event: '', Txt (ep_event packet), Txt '' for '',
                            Txt (ep_name packet)])]\<rparr>;
          w1 = broadcast
                 \<lparr>msg_type = PROCESS_EVENT,
                  msg_data = ProcessEventData (ep_pm_id packet) (ep_name packet) (ep_event packet)
                               (if ep_at packet \<noteq> 0 then ep_at packet else now),
                  msg_timestamp = now2\<rparr> (snd r)
      in broadcastProcessList (b1, w1))"

text \<open>
  \<open>startMetricsPolling\<close> broadcasts once and sets the interval timer; each firing of
  the timer is one more call of \<open>broadcastProcessList\<close>.
\<close>

definition startMetricsPolling :: "relay \<Rightarrow> relay" where
  "startMetricsPolling r =
     (let r1 = broadcastProcessList r in ((fst r1)\<lparr>metricsInterval := True\<rparr>, snd r1))"

definition on_metrics_tick :: "relay \<Rightarrow> relay" where
  "on_metrics_tick r = broadcastProcessList r"

text \<open>
  \<open>Array.prototype.slice(start)\<close> for an integral \<open>start\<close>: a negative start counts
  from the end, and \<open>slice(-0)\<close> is \<open>slice(0)\<close>.
\<close>

definition slice :: "int \<Rightarrow> 'a list \<Rightarrow> 'a list" where
  "slice start xs =
     (if start < 0 then drop (nat (max (int (length xs) + start) 0)) xs
      else drop (nat (min start (int (length xs)))) xs)"

text \<open>
  \<open>getRecentLogs(processId?, limit)\<close>; \<open>None\<close> is an omitted process id. The
  limit is an integral number (a caller that omits it passes the default, 100).
\<close>

definition getRecentLogs :: "int option \<Rightarrow> int \<Rightarrow> PM2EventBus \<Rightarrow> LogEntry list" where
  "getRecentLogs pid_opt limit b =
     (let logs = (case pid_opt of
                    None \<Rightarrow> logBuffer b
                  | Some p \<Rightarrow> filter (\<lambda>log. processId log = p) (logBuffer b))
      in slice (- limit) logs)"

definition clearLogBuffer :: "PM2EventBus \<Rightarrow> PM2EventBus" where
  "clearLogBuffer b = b\<lparr>logBuffer := []\<rparr>"

definition destroy :: "PM2EventBus \<Rightarrow> PM2EventBus" where
  "destroy b =
     b\<lparr>metricsInterval := False, logBuffer := [],
       bus_log := bus_log b @ [(LInfo, [Txt ''PM2 event bus destroyed''])]\<rparr>"

section \<open>Upstream connection supervisor (pm2/client.ts, class PM2Client)\<close>

text \<open>
  \<open>inFlight\<close> counts the calls of \<open>pm2.connect\<close> whose callback has not run yet.
\<close>

record PM2Client =
  connected :: bool
  connecting :: bool
  reconnectAttempts :: nat
  maxReconnectAttempts :: nat
  reconnectDelay :: nat
  maxReconnectDelay :: nat
  inFlight :: nat
  client_log :: "logRecord list"

definition PM2Client_init :: PM2Client where
  "PM2Client_init =
     \<lparr>connected = False, connecting = False, reconnectAttempts = 0,
      maxReconnectAttempts = 10, reconnectDelay = 1000, maxReconnectDelay = 30000,
      inFlight = 0, client_log = []\<rparr>"

datatype pm2error = ConnectionError "logArg list"

text \<open>
  How the promise an \<open>async\<close> method returned stands when the method stops running:
  fulfilled, rejected, or pending on a callback of the daemon.
\<close>

datatype promise = Resolved | Rejected pm2error | Pending

definition connect :: "PM2Client \<Rightarrow> promise \<times> PM2Client" where
  "connect c =
     (if connected c then
        (Resolved, c\<lparr>client_log := client_log c @ [(LDebug, [Txt ''Already connected to PM2''])]\<rparr>)
      else if connecting c then
        (Resolved, c\<lparr>client_log := client_log c @ [(LDebug, [Txt ''Connection already in progress''])]\<rparr>)
      else (Pending, c\<lparr>connecting := True, inFlight := Suc (inFlight c)\<rparr>))"

text \<open>
  The callback given to \<open>pm2.connect\<close>; \<open>err\<close> is the error message, if any. The
  promise it settles is the one the pending \<open>connect\<close> returned.
\<close>

definition connect_callback :: "string option \<Rightarrow> PM2Client \<Rightarrow> promise \<times> PM2Client" where
  "connect_callback err c =
     (let c1 = c\<lparr>connecting := False, inFlight := inFlight c - 1\<rparr>
      in case err of
           Some e \<Rightarrow>
             (Rejected (ConnectionError [Txt e]),
              c1\<lparr>client_log := client_log c1 @ [(LError, [Txt ''Failed to connect to PM2 daemon''])]\<rparr>)
         | None \<Rightarrow>
             (Resolved,
              c1\<lparr>connected := True, reconnectAttempts := 0,
                 client_log := client_log c1 @ [(LInfo, [Txt ''Connected to PM2 daemon''])]\<rparr>))"

definition disconnect :: "PM2Client \<Rightarrow> promise \<times> PM2Client" where
  "disconnect c =
     (if \<not> connected c then
        (Resolved, c\<lparr>client_log := client_log c @ [(LDebug, [Txt ''Not connected to PM2''])]\<rparr>)
      else
        (Resolved, c\<lparr>connected := False,
                      client_log := client_log c @ [(LInfo, [Txt ''Disconnected from PM2 daemon''])]\<rparr>))"

definition isConnected :: "PM2Client \<Rightarrow> bool" where
  "isConnected c = connected c"

definition ensureConnected :: "PM2Client \<Rightarrow> promise \<times> PM2Client" where
  "ensureConnected c = (if \<not> connected c then connect c else (Resolved, c))"

text \<open>
  \<open>reconnect\<close> runs in two parts. The first checks the ceiling, counts the attempt,
  computes the delay, disconnects and starts the timer; it yields the error thrown or
  the delay waited. The second part runs when the timer fires and is \<open>connect\<close>.
\<close>

definition backoff :: "PM2Client \<Rightarrow> nat" where
  "backoff c =
     min (reconnectDelay c * 2 ^ (reconnectAttempts c - 1)) (maxReconnectDelay c)"

definition reconnect :: "PM2Client \<Rightarrow> (pm2error + nat) \<times> PM2Client" where
  "reconnect c =
     (if reconnectAttempts c \<ge> maxReconnectAttempts c then
        (Inl (ConnectionError [Txt ''Failed to reconnect after '',
                               Num (int (maxReconnectAttempts c)), Txt '' attempts'']), c)
      else
        (let c1 = c\<lparr>reconnectAttempts := Suc (reconnectAttempts c)\<rparr>;
             delay = backoff c1;
             c2 = c1\<lparr>client_log := client_log c1 @
                    [(LInfo, [Txt ''Attempting to reconnect to PM2 (attempt '',
                              Num (int (reconnectAttempts c1)), Txt ''/'',
                              Num (int (maxReconnectAttempts c1)), Txt '') in '',
                              Num (int delay), Txt ''ms''])]\<rparr>
         in (Inr delay, snd (disconnect c2))))"

definition reconnect_timer :: "PM2Client \<Rightarrow> promise \<times> PM2Client" where
  "reconnect_timer c = connect c"

text \<open>
  What can happen to the supervisor, one event at a time: a call of one of its methods,
  the firing of a reconnect timer, or the daemon running the callback of an outstanding
  \<open>pm2.connect\<close> (there is none to run when no call is in flight).
\<close>

datatype clientOp =
    OpConnect | OpDisconnect | OpEnsureConnected | OpReconnect | OpReconnectTimer
  | OpConnectCallback "string option"

fun client_step :: "PM2Client \<Rightarrow> clientOp \<Rightarrow> PM2Client" where
  "client_step c OpConnect = snd (connect c)"
| "client_step c OpDisconnect = snd (disconnect c)"
| "client_step c OpEnsureConnected = snd (ensureConnected c)"
| "client_step c OpReconnect = snd (reconnect c)"
| "client_step c OpReconnectTimer = snd (reconnect_timer c)"
| "client_step c (OpConnectCallback err) =
     (if inFlight c = 0 then c else snd (connect_callback err c))"

definition client_run :: "clientOp list \<Rightarrow> PM2Client" where
  "client_run ops = foldl client_step PM2Client_init ops"

section \<open>Client synchronization layer (frontend stores and useWebSocket)\<close>

text \<open>
  The stores hold what the handlers put there at run time. \<open>processes\<close> is \<open>None\<close>
  when it holds \<open>undefined\<close>, which \<open>setProcesses\<close> stores when it is handed the
  \<open>processes\<close> member of a payload that has none. \<open>logs\<close> holds the payloads
  \<open>addLog\<close> was handed, as received; a log entry of the server is a
  \<open>LogMessageData\<close>.
\<close>

record ProcessStore =
  processes :: "PM2Process list option"
  selectedProcessId :: "int option"
  isLoading :: bool
  error :: "string option"

definition setProcesses :: "PM2Process list option \<Rightarrow> ProcessStore \<Rightarrow> ProcessStore" where
  "setProcesses ps st = st\<lparr>processes := ps, isLoading := False, error := None\<rparr>"

record LogStore =
  logs :: "WSData list"
  isPaused :: bool
  maxLogs :: nat

definition addLog :: "WSData \<Rightarrow> LogStore \<Rightarrow> LogStore" where
  "addLog entry st =
     (if isPaused st then st
      else (let newLogs = logs st @ [entry]
            in if length newLogs > maxLogs st
               then st\<lparr>logs := slice (- int (maxLogs st)) newLogs\<rparr>
               else st\<lparr>logs := newLogs\<rparr>))"

text \<open>
  The destructuring \<open>const { processes } = message.data\<close>: the member \<open>processes\<close> of
  the payload, \<open>undefined\<close> for a payload that has no such member.
\<close>

fun processes_member :: "WSData \<Rightarrow> PM2Process list option" where
  "processes_member (ProcessListUpdateData ps) = Some ps"
| "processes_member (ProcessEventData p n e t) = None"
| "processes_member (LogMessageData l) = None"
| "processes_member (ConnectionStatusData c u) = None"
| "processes_member (ErrorData e) = None"

text \<open>
  \<open>handleMessage\<close> of \<open>useWebSocket\<close>: a switch on the message type. A
  \<open>PROCESS_LIST_UPDATE\<close> hands the \<open>processes\<close> member of its payload to
  \<open>setProcesses\<close> and a \<open>LOG_MESSAGE\<close> hands its payload to \<open>addLog\<close>, whatever
  the payload is, since the casts check nothing. The other cases only write to the
  console, which is not modelled, and leave the stores as they are.
\<close>

type_synonym clientState = "ProcessStore \<times> LogStore"

definition client_handleMessage :: "WSMessage \<Rightarrow> clientState \<Rightarrow> clientState" where
  "client_handleMessage m st =
     (case msg_type m of
        PROCESS_LIST_UPDATE \<Rightarrow> (setProcesses (processes_member (msg_data m)) (fst st), snd st)
      | LOG_MESSAGE \<Rightarrow> (fst st, addLog (msg_data m) (snd st))
      | _ \<Rightarrow> st)"

section \<open>Runs of events\<close>

text \<open>
  A log ingestion event is one firing of a \<open>log:out\<close>, \<open>log:err\<close> or \<open>log:PM2\<close>
  listener: the packet, the stream, and the values of \<open>uuidv4()\<close> and \<open>Date.now()\<close>
  read while handling it. \<open>ingest\<close> handles a sequence of them in arrival order.
\<close>

type_synonym logEvent = "PM2LogPacket \<times> logType \<times> string \<times> int \<times> int"

definition entry_of :: "logEvent \<Rightarrow> LogEntry" where
  "entry_of ev = (case ev of (packet, ty, uuid, now, now2) \<Rightarrow> mkLogEntry packet ty uuid now)"

definition ingest_step :: "relay \<Rightarrow> logEvent \<Rightarrow> relay" where
  "ingest_step r ev =
     (case ev of (packet, ty, uuid, now, now2) \<Rightarrow> handleLog packet ty uuid now now2 r)"

definition ingest :: "relay \<Rightarrow> logEvent list \<Rightarrow> relay" where
  "ingest r evs = foldl ingest_step r evs"

section \<open>Auxiliary notions for the fan-out loops\<close>

text \<open>
  \<open>fan\<close> is the common shape of the two \<open>forEach\<close> loops of the hub: visit the
  sockets \<open>cs\<close> in order and send to those whose subscription set passes the test
  \<open>P\<close>. \<open>delivers\<close> says that such a send reaches the transport.
\<close>

definition fan ::
    "(subscription set \<Rightarrow> bool) \<Rightarrow> WSMessage \<Rightarrow> WebSocketManager \<Rightarrow> nat list \<Rightarrow> WebSocketManager" where
  "fan P m s cs =
     foldl (\<lambda>s' client. if P (subscriptions (sockets s' client))
                          then sendToClient client m s' else s') s cs"

definition delivers :: "(subscription set \<Rightarrow> bool) \<Rightarrow> ExtendedWebSocket \<Rightarrow> bool" where
  "delivers P sock \<longleftrightarrow> P (subscriptions sock) \<and> readyState sock = OPEN \<and> \<not> sendThrows sock"

section \<open>Example states\<close>

text \<open>
  A hub two clients connected to, the first of which then subscribed to process 7 and
  unsubscribed from \<open>'all'\<close>.
\<close>

definition demo_hub :: WebSocketManager where
  "demo_hub =
     handleMessage 11 (Parsed ''UNSUBSCRIBE_LOGS'' (ProcessIdData All)) 3
       (handleMessage 11 (Parsed ''SUBSCRIBE_LOGS'' (ProcessIdData (Pid 7))) 2
          (handleConnection 12 1 (handleConnection 11 0 WebSocketManager_init)))"

definition status_msg :: "int \<Rightarrow> WSMessage" where
  "status_msg now =
     \<lparr>msg_type = CONNECTION_STATUS, msg_data = ConnectionStatusData True True,
      msg_timestamp = now\<rparr>"


definition list_msg :: "PM2Process list \<Rightarrow> int \<Rightarrow> WSMessage" where
  "list_msg ps now =
     \<lparr>msg_type = PROCESS_LIST_UPDATE, msg_data = ProcessListUpdateData ps, msg_timestamp = now\<rparr>"

section \<open>Auxiliary notions for the heartbeat\<close>

text \<open>
  \<open>visits\<close> is the loop of \<open>checkHeartbeat\<close> over a given list of sockets;
  \<open>pongs\<close> is the arrival of a pong from each socket of a list, in order.
\<close>

definition visits :: "WebSocketManager \<Rightarrow> nat list \<Rightarrow> WebSocketManager" where
  "visits s cs = foldl (\<lambda>s' ws. heartbeat_visit ws s') s cs"

definition pongs :: "WebSocketManager \<Rightarrow> nat list \<Rightarrow> WebSocketManager" where
  "pongs s ps = foldl (\<lambda>s' ws. on_pong ws s') s ps"

text \<open>
  A lifecycle event is one firing of the \<open>process:event\<close> listener, with the two
  readings of \<open>Date.now()\<close>; \<open>event_msg\<close> is the message the listener broadcasts.
\<close>

type_synonym lifecycleEvent = "PM2ProcessEventPacket \<times> int \<times> int"

definition lifecycle_step :: "relay \<Rightarrow> lifecycleEvent \<Rightarrow> relay" where
  "lifecycle_step r ev = (case ev of (packet, now, now2) \<Rightarrow> on_process_event packet now now2 r)"

definition lifecycle_run :: "relay \<Rightarrow> lifecycleEvent list \<Rightarrow> relay" where
  "lifecycle_run r evs = foldl lifecycle_step r evs"

definition event_msg :: "PM2ProcessEventPacket \<Rightarrow> int \<Rightarrow> int \<Rightarrow> WSMessage" where
  "event_msg packet now now2 =
     \<lparr>msg_type = PROCESS_EVENT,
      msg_data = ProcessEventData (ep_pm_id packet) (ep_name packet) (ep_event packet)
                   (if ep_at packet \<noteq> 0 then ep_at packet else now),
      msg_timestamp = now2\<rparr>"

definition exit_packet :: PM2ProcessEventPacket where
  "exit_packet = \<lparr>ep_event = ''exit'', ep_pm_id = 5, ep_name = ''api'', ep_pid = 4242, ep_at = 100\<rparr>"

section \<open>Auxiliary notions for the supervisor\<close>

text \<open>
  \<open>client_inv\<close> relates the flags of the supervisor to the calls of \<open>pm2.connect\<close>
  in flight. \<open>failed_round\<close> is one failed reconnect: \<open>reconnect\<close>, its timer, and
  the callback of the connection attempt reporting the error \<open>e\<close>.
\<close>

definition client_inv :: "PM2Client \<Rightarrow> bool" where
  "client_inv c \<longleftrightarrow> inFlight c = (if connecting c then 1 else 0) \<and> \<not> (connected c \<and> connecting c)"

definition failed_round :: "string \<Rightarrow> PM2Client \<Rightarrow> PM2Client" where
  "failed_round e c = snd (connect_callback (Some e) (snd (reconnect_timer (snd (reconnect c)))))"

text \<open>
  An event bus that ingested two log lines, and a client state and a process for the
  browser side.
\<close>

definition demo_logs :: "logEvent list" where
  "demo_logs =
     [(\<lparr>lp_pm_id = 7, lp_name = ''api'', lp_namespace = ''default'', lp_data = ''started'',
        lp_at = 100\<rparr>, Out, ''u1'', 101, 101),
      (\<lparr>lp_pm_id = 3, lp_name = ''db'', lp_namespace = ''default'', lp_data = ''oops'',
        lp_at = 0\<rparr>, Err, ''u2'', 102, 102)]"

definition demo_bus :: PM2EventBus where
  "demo_bus = fst (ingest (PM2EventBus_init, WebSocketManager_init) demo_logs)"

definition demo_store :: clientState where
  "demo_store =
     (\<lparr>processes = Some [], selectedProcessId = None, isLoading = True, error = Some ''stale''\<rparr>,
      \<lparr>logs = [], isPaused = False, maxLogs = 10000\<rparr>)"

definition demo_process :: PM2Process where
  "demo_process = \<lparr>pm_id = 5, name = ''api'', pid = 4242, status = Online, memory = 1024, cpu = 3\<rparr>"

section \<open>The log ring buffer\<close>

lemma handleLog_maxBufferSize:
  "maxBufferSize (fst (handleLog packet ty uuid now now2 r)) = maxBufferSize (fst r)"
  by (simp add: handleLog_def Let_def)

lemma handleLog_logBuffer:
  "logBuffer (fst (handleLog packet ty uuid now now2 r)) =
     (if length (logBuffer (fst r)) \<ge> maxBufferSize (fst r)
      then tl (logBuffer (fst r) @ [mkLogEntry packet ty uuid now])
      else logBuffer (fst r) @ [mkLogEntry packet ty uuid now])"
  by (simp add: handleLog_def Let_def)

lemma ingest_snoc: "ingest r (evs @ [ev]) = ingest_step (ingest r evs) ev"
  by (simp add: ingest_def)

lemma ingest_maxBufferSize: "maxBufferSize (fst (ingest r evs)) = maxBufferSize (fst r)"
  by (induction evs rule: rev_induct)
     (auto simp: ingest_snoc ingest_step_def handleLog_maxBufferSize ingest_def split: prod.splits)

text \<open>
  One more entry behind a window of the last \<open>cap\<close> entries: dropping the head of a
  full window is the window of the longer sequence.
\<close>

lemma drop_snoc_step:
  assumes "n = length xs"
  shows "(if length (drop (n - cap) xs) \<ge> cap
          then tl (drop (n - cap) xs @ [e]) else drop (n - cap) xs @ [e])
         = drop (Suc n - cap) (xs @ [e])"
proof (cases "cap \<le> n")
  case True
  show ?thesis
  proof (cases "cap = 0")
    case True
    then show ?thesis using assms by simp
  next
    case False
    with True assms have ne: "drop (n - cap) xs \<noteq> []" by simp
    have "tl (drop (n - cap) xs @ [e]) = tl (drop (n - cap) xs) @ [e]"
      using ne by simp
    also have "tl (drop (n - cap) xs) = drop (Suc (n - cap)) xs"
      by (simp add: drop_Suc tl_drop)
    also have "Suc (n - cap) = Suc n - cap" using True by simp
    finally show ?thesis using True False assms by simp
  qed
next
  case False
  then show ?thesis using assms by simp
qed

lemma ingest_logBuffer:
  assumes "length (logBuffer (fst r)) \<le> maxBufferSize (fst r)"
  shows "logBuffer (fst (ingest r evs)) =
           drop (length (logBuffer (fst r) @ map entry_of evs) - maxBufferSize (fst r))
                (logBuffer (fst r) @ map entry_of evs)"
proof (induction evs rule: rev_induct)
  case Nil
  then show ?case using assms by (simp add: ingest_def)
next
  case (snoc ev evs)
  obtain packet ty uuid now now2 where ev: "ev = (packet, ty, uuid, now, now2)"
    by (cases ev) auto
  let ?all = "logBuffer (fst r) @ map entry_of evs"
  let ?cap = "maxBufferSize (fst r)"
  define B where "B = logBuffer (fst (ingest r evs))"
  have B: "B = drop (length ?all - ?cap) ?all"
    unfolding B_def by (rule snoc.IH)
  have "logBuffer (fst (ingest r (evs @ [ev]))) =
          (if length B \<ge> ?cap then tl (B @ [entry_of ev]) else B @ [entry_of ev])"
    by (simp add: ingest_snoc ev ingest_step_def handleLog_logBuffer ingest_maxBufferSize
          entry_of_def B_def)
  also have "\<dots> =
          (if length (drop (length ?all - ?cap) ?all) \<ge> ?cap
           then tl (drop (length ?all - ?cap) ?all @ [entry_of ev])
           else drop (length ?all - ?cap) ?all @ [entry_of ev])"
    by (simp only: B)
  also have "\<dots> = drop (Suc (length ?all) - ?cap) (?all @ [entry_of ev])"
    by (rule drop_snoc_step) simp
  finally show ?case by simp
qed

text \<open>
  Claim C1. Whatever sequence of log events \<open>handleLog\<close> processes, starting from a
  buffer within its capacity, the buffer stays within \<open>maxBufferSize\<close> and holds
  exactly the most recent \<open>maxBufferSize\<close> entries in arrival order; one entry ingested
  into a full buffer leaves it full, with the oldest entry gone and the new one last.
\<close>

theorem ring_buffer_fifo:
  assumes "length (logBuffer (fst r)) \<le> maxBufferSize (fst r)"
  shows "length (logBuffer (fst (ingest r evs))) \<le> maxBufferSize (fst r)
       \<and> logBuffer (fst (ingest r evs)) =
           drop (length (logBuffer (fst r) @ map entry_of evs) - maxBufferSize (fst r))
                (logBuffer (fst r) @ map entry_of evs)
       \<and> (length (logBuffer (fst r)) = maxBufferSize (fst r) \<and> 0 < maxBufferSize (fst r) \<longrightarrow>
            logBuffer (fst (ingest r [ev])) = tl (logBuffer (fst r)) @ [entry_of ev]
          \<and> length (logBuffer (fst (ingest r [ev]))) = maxBufferSize (fst r))"
proof (intro conjI impI)
  show "length (logBuffer (fst (ingest r evs))) \<le> maxBufferSize (fst r)"
    by (simp add: ingest_logBuffer [OF assms])
  show "logBuffer (fst (ingest r evs)) =
           drop (length (logBuffer (fst r) @ map entry_of evs) - maxBufferSize (fst r))
                (logBuffer (fst r) @ map entry_of evs)"
    by (rule ingest_logBuffer [OF assms])
next
  assume full: "length (logBuffer (fst r)) = maxBufferSize (fst r) \<and> 0 < maxBufferSize (fst r)"
  then have ne: "logBuffer (fst r) \<noteq> []" by auto
  obtain packet ty uuid now now2 where ev: "ev = (packet, ty, uuid, now, now2)"
    by (cases ev) auto
  show one: "logBuffer (fst (ingest r [ev])) = tl (logBuffer (fst r)) @ [entry_of ev]"
    using full ne by (simp add: ingest_def ingest_step_def ev handleLog_logBuffer entry_of_def)
  show "length (logBuffer (fst (ingest r [ev]))) = maxBufferSize (fst r)"
    using full ne by (simp add: one)
qed

theorem ring_buffer_fifo_witness:
  "logBuffer (fst (ingest
      (PM2EventBus_init\<lparr>logBuffer := replicate 10000
          \<lparr>id' = ''a'', processId = 1, processName = ''api'', type' = Out, message = ''old'',
           timestamp = 5\<rparr>\<rparr>, WebSocketManager_init)
      [(\<lparr>lp_pm_id = 2, lp_name = ''web'', lp_namespace = ''default'', lp_data = ''new'',
         lp_at = 0\<rparr>, Err, ''b'', 9, 9)]))
   = replicate 9999
       \<lparr>id' = ''a'', processId = 1, processName = ''api'', type' = Out, message = ''old'',
        timestamp = 5\<rparr>
     @ [\<lparr>id' = ''b'', processId = 2, processName = ''web'', type' = Err, message = ''new'',
         timestamp = 9\<rparr>]"
proof -
  let ?r = "(PM2EventBus_init\<lparr>logBuffer := replicate 10000
          \<lparr>id' = ''a'', processId = 1, processName = ''api'', type' = Out, message = ''old'',
           timestamp = 5\<rparr>\<rparr>, WebSocketManager_init)"
  have h: "length (logBuffer (fst ?r)) \<le> maxBufferSize (fst ?r)"
    by (simp add: PM2EventBus_init_def)
  have full: "length (logBuffer (fst ?r)) = maxBufferSize (fst ?r) \<and> 0 < maxBufferSize (fst ?r)"
    by (simp add: PM2EventBus_init_def)
  show ?thesis
    using ring_buffer_fifo [OF h, of "[]"
        "(\<lparr>lp_pm_id = 2, lp_name = ''web'', lp_namespace = ''default'', lp_data = ''new'',
           lp_at = 0\<rparr>, Err, ''b'', 9, 9)"] full
    by (simp add: entry_of_def mkLogEntry_def)
qed

section \<open>Fan-out of the hub\<close>


lemma sendToClient_clients [simp]: "clients (sendToClient ws m s) = clients s"
  by (simp add: sendToClient_def)

lemma sendToClient_sockets:
  "sockets (sendToClient ws m s) c =
     (if c = ws \<and> readyState (sockets s ws) = OPEN \<and> \<not> sendThrows (sockets s ws)
      then (sockets s c)\<lparr>sent := sent (sockets s c) @ [m]\<rparr> else sockets s c)"
  by (simp add: sendToClient_def)


lemma fan_Nil [simp]: "fan P m s [] = s" by (simp add: fan_def)
lemma fan_Cons: "fan P m s (c # cs) = fan P m (if P (subscriptions (sockets s c)) then sendToClient c m s else s) cs"
  by (simp add: fan_def)

lemma broadcast_fan: "broadcast m s = fan (\<lambda>_. True) m s (clients s)"
  by (simp add: broadcast_def fan_def)

lemma broadcastToSubscribers_fan:
  "broadcastToSubscribers p m s = fan (\<lambda>S. All \<in> S \<or> Pid p \<in> S) m s (clients s)"
  by (simp add: broadcastToSubscribers_def fan_def)

lemma fan_clients [simp]: "clients (fan P m s cs) = clients s"
  by (induction cs arbitrary: s) (simp_all add: fan_Cons)

lemma fan_sockets:
  "distinct cs \<Longrightarrow>
   sockets (fan P m s cs) c =
     (if c \<in> set cs \<and> delivers P (sockets s c)
      then (sockets s c)\<lparr>sent := sent (sockets s c) @ [m]\<rparr> else sockets s c)"
proof (induction cs arbitrary: s)
  case Nil
  then show ?case by simp
next
  case (Cons a cs)
  let ?s1 = "if P (subscriptions (sockets s a)) then sendToClient a m s else s"
  have other: "\<And>x. x \<noteq> a \<Longrightarrow> sockets ?s1 x = sockets s x"
    by (simp add: sendToClient_sockets)
  from Cons.prems have a: "a \<notin> set cs" and d: "distinct cs" by simp_all
  have "sockets (fan P m s (a # cs)) c = sockets (fan P m ?s1 cs) c"
    by (simp only: fan_Cons)
  also have "\<dots> = (if c \<in> set cs \<and> delivers P (sockets ?s1 c)
      then (sockets ?s1 c)\<lparr>sent := sent (sockets ?s1 c) @ [m]\<rparr> else sockets ?s1 c)"
    by (rule Cons.IH [OF d])
  also have "\<dots> = (if c \<in> set (a # cs) \<and> delivers P (sockets s c)
      then (sockets s c)\<lparr>sent := sent (sockets s c) @ [m]\<rparr> else sockets s c)"
  proof (cases "c = a")
    case True
    then show ?thesis using a by (simp add: sendToClient_sockets delivers_def)
  next
    case False
    then show ?thesis by (simp add: other)
  qed
  finally show ?case .
qed


lemma demo_hub_clients: "clients demo_hub = [11, 12]"
  by (simp add: demo_hub_def handleMessage_def handleConnection_def sendToClient_def
        WebSocketManager_init_def set_add_def Let_def)

lemma demo_hub_socket1:
  "sockets demo_hub 11 = \<lparr>isAlive = True, subscriptions = {Pid 7}, readyState = OPEN,
      sendThrows = False, sent = [status_msg 0], pings = 0, terminated = False\<rparr>"
  by (auto simp add: demo_hub_def handleMessage_def handleConnection_def sendToClient_def
        WebSocketManager_init_def set_add_def Let_def status_msg_def)

lemma demo_hub_socket2:
  "sockets demo_hub 12 = \<lparr>isAlive = True, subscriptions = {All}, readyState = OPEN,
      sendThrows = False, sent = [status_msg 1], pings = 0, terminated = False\<rparr>"
  by (simp add: demo_hub_def handleMessage_def handleConnection_def sendToClient_def
        WebSocketManager_init_def set_add_def Let_def status_msg_def)

text \<open>
  Claim C2. A session whose subscription set is exactly process 7 is left untouched by
  \<open>broadcastToSubscribers\<close> for any other process id, and so by \<open>handleLog\<close> for a
  packet of any other process. \<open>broadcast\<close> appends its message to the messages sent
  to every session of the set whose socket is open and accepts the send, whatever that
  session subscribed to; this is how the \<open>PROCESS_EVENT\<close> of a lifecycle event and the
  \<open>PROCESS_LIST_UPDATE\<close> of a resolved list call reach every such session.
\<close>

theorem subscription_filtering:
  assumes "distinct (clients s)"
  shows "(subscriptions (sockets s c) = {Pid 7} \<and> p \<noteq> 7 \<longrightarrow>
            sockets (broadcastToSubscribers p m s) c = sockets s c)
       \<and> (subscriptions (sockets s c) = {Pid 7} \<and> lp_pm_id packet \<noteq> 7 \<longrightarrow>
            sockets (snd (handleLog packet ty uuid now now2 (b, s))) c = sockets s c)
       \<and> (x \<in> set (clients s) \<and> readyState (sockets s x) = OPEN \<and> \<not> sendThrows (sockets s x) \<longrightarrow>
            sent (sockets (broadcast m s) x) = sent (sockets s x) @ [m]
          \<and> sent (sockets (snd (on_process_event epacket now now2 (b, s))) x) =
              sent (sockets s x) @ [event_msg epacket now now2]
          \<and> sent (sockets (snd (broadcastProcessList_settled (ListResolved ps) now (b, s))) x) =
              sent (sockets s x) @ [list_msg ps now])"
proof -
  have filtered: "\<And>q msg. subscriptions (sockets s c) = {Pid 7} \<Longrightarrow> q \<noteq> 7 \<Longrightarrow>
                    sockets (broadcastToSubscribers q msg s) c = sockets s c"
    using assms by (simp add: broadcastToSubscribers_fan fan_sockets delivers_def)
  have all: "\<And>msg. x \<in> set (clients s) \<Longrightarrow> readyState (sockets s x) = OPEN \<Longrightarrow>
               \<not> sendThrows (sockets s x) \<Longrightarrow>
               sent (sockets (broadcast msg s) x) = sent (sockets s x) @ [msg]"
    using assms by (simp add: broadcast_fan fan_sockets delivers_def)
  show ?thesis
    by (simp add: filtered all handleLog_def on_process_event_def broadcastProcessList_def
          broadcastProcessList_settled_def event_msg_def list_msg_def Let_def)
qed

theorem subscription_filtering_witness:
  "sockets (broadcastToSubscribers 3
       \<lparr>msg_type = LOG_MESSAGE,
        msg_data = LogMessageData \<lparr>id' = ''u'', processId = 3, processName = ''db'', type' = Out,
                                   message = ''x'', timestamp = 4\<rparr>,
        msg_timestamp = 4\<rparr> demo_hub) 11 = sockets demo_hub 11
   \<and> sent (sockets (broadcast (list_msg [] 5) demo_hub) 11) = [status_msg 0, list_msg [] 5]
   \<and> sent (sockets (snd (on_process_event exit_packet 6 7 (PM2EventBus_init, demo_hub))) 11)
       = [status_msg 0, event_msg exit_packet 6 7]"
proof -
  have d: "distinct (clients demo_hub)" by (simp add: demo_hub_clients)
  show ?thesis
    using subscription_filtering [OF d, where c = 11 and x = 11 and p = 3 and now = 6
        and ?now2.0 = 7 and epacket = exit_packet and b = PM2EventBus_init and m = "list_msg [] 5"]
      subscription_filtering [OF d, where c = 11 and x = 11 and p = 3
        and m = "\<lparr>msg_type = LOG_MESSAGE,
        msg_data = LogMessageData \<lparr>id' = ''u'', processId = 3, processName = ''db'', type' = Out,
                                   message = ''x'', timestamp = 4\<rparr>,
        msg_timestamp = 4\<rparr>"]
    by (simp add: demo_hub_clients demo_hub_socket1)
qed

section \<open>Failure isolation in the fan-out\<close>




section \<open>Subscriptions\<close>



section \<open>Heartbeat\<close>

lemma checkHeartbeat_visits: "checkHeartbeat s = visits s (clients s)"
  by (simp add: checkHeartbeat_def visits_def)

lemma visits_Cons: "visits s (c # cs) = visits (heartbeat_visit c s) cs"
  by (simp add: visits_def)

lemma heartbeat_visit_other: "x \<noteq> c \<Longrightarrow> sockets (heartbeat_visit c s) x = sockets s x"
  by (simp add: heartbeat_visit_def)

lemma heartbeat_visit_clients:
  "clients (heartbeat_visit c s) =
     (if isAlive (sockets s c) then clients s else filter (\<lambda>x. x \<noteq> c) (clients s))"
  by (simp add: heartbeat_visit_def set_delete_def)

lemma heartbeat_visit_self:
  "sockets (heartbeat_visit c s) c =
     (if isAlive (sockets s c)
      then (sockets s c)\<lparr>isAlive := False, pings := Suc (pings (sockets s c))\<rparr>
      else (sockets s c)\<lparr>terminated := True\<rparr>)"
  by (simp add: heartbeat_visit_def)

lemma visits_sockets:
  "distinct cs \<Longrightarrow>
   sockets (visits s cs) x =
     (if x \<in> set cs
      then (if isAlive (sockets s x)
            then (sockets s x)\<lparr>isAlive := False, pings := Suc (pings (sockets s x))\<rparr>
            else (sockets s x)\<lparr>terminated := True\<rparr>)
      else sockets s x)"
proof (induction cs arbitrary: s x)
  case Nil
  then show ?case by (simp add: visits_def)
next
  case (Cons c cs)
  from Cons.prems have c: "c \<notin> set cs" and d: "distinct cs" by simp_all
  show ?case
  proof (cases "x = c")
    case True
    then show ?thesis using c by (simp add: visits_Cons Cons.IH [OF d] heartbeat_visit_self)
  next
    case False
    then show ?thesis by (simp add: visits_Cons Cons.IH [OF d] heartbeat_visit_other)
  qed
qed

lemma visits_clients:
  "distinct cs \<Longrightarrow>
   clients (visits s cs) = filter (\<lambda>x. x \<notin> set cs \<or> isAlive (sockets s x)) (clients s)"
proof (induction cs arbitrary: s)
  case Nil
  then show ?case by (simp add: visits_def)
next
  case (Cons c cs)
  from Cons.prems have c: "c \<notin> set cs" and d: "distinct cs" by simp_all
  have alive: "\<And>x. x \<in> set cs \<Longrightarrow> isAlive (sockets (heartbeat_visit c s) x) = isAlive (sockets s x)"
  proof -
    fix x assume "x \<in> set cs"
    with c have "x \<noteq> c" by auto
    then show "isAlive (sockets (heartbeat_visit c s) x) = isAlive (sockets s x)"
      by (simp add: heartbeat_visit_other)
  qed
  have "clients (visits s (c # cs)) =
          filter (\<lambda>x. x \<notin> set cs \<or> isAlive (sockets (heartbeat_visit c s) x))
            (clients (heartbeat_visit c s))"
    by (simp add: visits_Cons Cons.IH [OF d])
  also have "\<dots> = filter (\<lambda>x. x \<notin> set cs \<or> isAlive (sockets s x)) (clients (heartbeat_visit c s))"
    by (rule filter_cong) (auto simp: alive)
  also have "\<dots> = filter (\<lambda>x. x \<notin> set (c # cs) \<or> isAlive (sockets s x)) (clients s)"
    by (auto simp: heartbeat_visit_clients intro: filter_cong)
  finally show ?case .
qed

lemma checkHeartbeat_clients:
  "distinct (clients s) \<Longrightarrow>
   clients (checkHeartbeat s) = filter (\<lambda>x. isAlive (sockets s x)) (clients s)"
  by (simp add: checkHeartbeat_visits visits_clients cong: filter_cong)

lemma checkHeartbeat_sockets:
  "distinct (clients s) \<Longrightarrow>
   sockets (checkHeartbeat s) x =
     (if x \<in> set (clients s)
      then (if isAlive (sockets s x)
            then (sockets s x)\<lparr>isAlive := False, pings := Suc (pings (sockets s x))\<rparr>
            else (sockets s x)\<lparr>terminated := True\<rparr>)
      else sockets s x)"
  by (simp add: checkHeartbeat_visits visits_sockets)

lemma pongs_clients [simp]: "clients (pongs s ps) = clients s"
  by (induction ps arbitrary: s) (simp_all add: pongs_def on_pong_def)

lemma pongs_sockets:
  "sockets (pongs s ps) x = (if x \<in> set ps then (sockets s x)\<lparr>isAlive := True\<rparr> else sockets s x)"
proof (induction ps arbitrary: s)
  case Nil
  then show ?case by (simp add: pongs_def)
next
  case (Cons p ps)
  have "pongs s (p # ps) = pongs (on_pong p s) ps" by (simp add: pongs_def)
  then show ?case by (simp add: Cons.IH on_pong_def)
qed

lemma two_ticks_clients:
  assumes "distinct (clients s)"
  shows "clients (checkHeartbeat (pongs (checkHeartbeat s) ps)) =
           filter (\<lambda>x. x \<in> set ps \<and> isAlive (sockets s x)) (clients s)"
proof -
  let ?s1 = "checkHeartbeat s"
  let ?s2 = "pongs ?s1 ps"
  have c1: "clients ?s1 = filter (\<lambda>x. isAlive (sockets s x)) (clients s)"
    by (rule checkHeartbeat_clients [OF assms])
  have d2: "distinct (clients ?s2)" using assms by (simp add: c1)
  have "clients (checkHeartbeat ?s2) = filter (\<lambda>x. isAlive (sockets ?s2 x)) (clients ?s2)"
    by (rule checkHeartbeat_clients [OF d2])
  also have "\<dots> = filter (\<lambda>x. isAlive (sockets ?s2 x)) (filter (\<lambda>x. isAlive (sockets s x)) (clients s))"
    by (simp add: c1)
  also have "\<dots> = filter (\<lambda>x. isAlive (sockets s x) \<and> isAlive (sockets ?s2 x)) (clients s)"
    by (simp add: conj_commute)
  also have "\<dots> = filter (\<lambda>x. x \<in> set ps \<and> isAlive (sockets s x)) (clients s)"
    by (rule filter_cong) (auto simp: pongs_sockets checkHeartbeat_sockets [OF assms])
  finally show ?thesis .
qed

lemma two_ticks_terminated:
  assumes "distinct (clients s)" and "c \<in> set (clients s)" and "c \<notin> set ps"
  shows "terminated (sockets (checkHeartbeat (pongs (checkHeartbeat s) ps)) c)"
proof -
  let ?s1 = "checkHeartbeat s"
  let ?s2 = "pongs ?s1 ps"
  have c1: "clients ?s1 = filter (\<lambda>x. isAlive (sockets s x)) (clients s)"
    by (rule checkHeartbeat_clients [OF assms(1)])
  have d2: "distinct (clients ?s2)" using assms(1) by (simp add: c1)
  have k2: "sockets ?s2 c = sockets ?s1 c" using assms(3) by (simp add: pongs_sockets)
  show ?thesis
    using assms(2)
    by (simp add: checkHeartbeat_sockets [OF d2] k2 c1 checkHeartbeat_sockets [OF assms(1)])
qed

text \<open>
  Claim C8. A heartbeat tick marks every session that was alive as not alive, pings it
  and keeps it; it terminates and removes every session that was not alive. A pong
  marks its session alive again. A session from which no pong arrives between two
  consecutive ticks is terminated and is out of the session set after the second tick,
  which keeps exactly the sessions that were alive and ponged; a broadcast right after
  hands its message to exactly the sessions left whose socket is open and accepts the
  send, and leaves every other socket as it was. \<open>broadcast\<close> is total and yields
  only the new state, so no error reaches its caller.
\<close>

theorem heartbeat_eviction:
  assumes "distinct (clients s)" and "c \<in> set (clients s)" and "c \<notin> set ps"
  shows "(\<forall>x\<in>set (clients s). isAlive (sockets s x) \<longrightarrow>
            sockets (checkHeartbeat s) x =
              (sockets s x)\<lparr>isAlive := False, pings := Suc (pings (sockets s x))\<rparr>
          \<and> x \<in> set (clients (checkHeartbeat s)))
       \<and> (\<forall>x\<in>set (clients s). \<not> isAlive (sockets s x) \<longrightarrow>
            terminated (sockets (checkHeartbeat s) x) \<and> x \<notin> set (clients (checkHeartbeat s)))
       \<and> isAlive (sockets (on_pong x s) x) \<and> clients (on_pong x s) = clients s
       \<and> c \<notin> set (clients (checkHeartbeat (pongs (checkHeartbeat s) ps)))
       \<and> terminated (sockets (checkHeartbeat (pongs (checkHeartbeat s) ps)) c)
       \<and> clients (checkHeartbeat (pongs (checkHeartbeat s) ps)) =
           filter (\<lambda>x. x \<in> set ps \<and> isAlive (sockets s x)) (clients s)
       \<and> clients (broadcast m (checkHeartbeat (pongs (checkHeartbeat s) ps))) =
           clients (checkHeartbeat (pongs (checkHeartbeat s) ps))
       \<and> (\<forall>x. sockets (broadcast m (checkHeartbeat (pongs (checkHeartbeat s) ps))) x =
             (if x \<in> set (clients (checkHeartbeat (pongs (checkHeartbeat s) ps)))
                 \<and> readyState (sockets s x) = OPEN \<and> \<not> sendThrows (sockets s x)
              then (sockets (checkHeartbeat (pongs (checkHeartbeat s) ps)) x)
                     \<lparr>sent := sent (sockets s x) @ [m]\<rparr>
              else sockets (checkHeartbeat (pongs (checkHeartbeat s) ps)) x))"
proof -
  let ?s3 = "checkHeartbeat (pongs (checkHeartbeat s) ps)"
  have c1: "clients (checkHeartbeat s) = filter (\<lambda>x. isAlive (sockets s x)) (clients s)"
    by (rule checkHeartbeat_clients [OF assms(1)])
  have c3: "clients ?s3 = filter (\<lambda>x. x \<in> set ps \<and> isAlive (sockets s x)) (clients s)"
    by (rule two_ticks_clients [OF assms(1)])
  have d2: "distinct (clients (pongs (checkHeartbeat s) ps))" using assms(1) by (simp add: c1)
  have d3: "distinct (clients ?s3)" using assms(1) by (simp add: c3)
  have k3: "\<And>x. readyState (sockets ?s3 x) = readyState (sockets s x)
             \<and> sendThrows (sockets ?s3 x) = sendThrows (sockets s x)
             \<and> sent (sockets ?s3 x) = sent (sockets s x)"
    by (simp add: checkHeartbeat_sockets [OF d2] pongs_sockets checkHeartbeat_sockets [OF assms(1)])
  have A: "\<forall>x\<in>set (clients s). isAlive (sockets s x) \<longrightarrow>
            sockets (checkHeartbeat s) x =
              (sockets s x)\<lparr>isAlive := False, pings := Suc (pings (sockets s x))\<rparr>
          \<and> x \<in> set (clients (checkHeartbeat s))"
    by (simp add: checkHeartbeat_sockets [OF assms(1)] c1)
  have B: "\<forall>x\<in>set (clients s). \<not> isAlive (sockets s x) \<longrightarrow>
            terminated (sockets (checkHeartbeat s) x) \<and> x \<notin> set (clients (checkHeartbeat s))"
    by (simp add: checkHeartbeat_sockets [OF assms(1)] c1)
  have C: "isAlive (sockets (on_pong x s) x) \<and> clients (on_pong x s) = clients s"
    by (simp add: on_pong_def)
  have D: "c \<notin> set (clients ?s3)" using assms(3) by (simp add: c3)
  have E: "terminated (sockets ?s3 c)" by (rule two_ticks_terminated [OF assms])
  have F: "clients (broadcast m ?s3) = clients ?s3" by (simp add: broadcast_fan)
  have G: "\<forall>x. sockets (broadcast m ?s3) x =
             (if x \<in> set (clients ?s3) \<and> readyState (sockets s x) = OPEN \<and> \<not> sendThrows (sockets s x)
              then (sockets ?s3 x)\<lparr>sent := sent (sockets s x) @ [m]\<rparr>
              else sockets ?s3 x)"
    by (simp add: broadcast_fan fan_sockets [OF d3] delivers_def k3)
  from A B C D E c3 F G show ?thesis by blast
qed


theorem heartbeat_eviction_witness:
  "clients (checkHeartbeat (pongs (checkHeartbeat demo_hub) [12])) = [12]
   \<and> terminated (sockets (checkHeartbeat (pongs (checkHeartbeat demo_hub) [12])) 11)
   \<and> sent (sockets (broadcast (list_msg [] 5)
              (checkHeartbeat (pongs (checkHeartbeat demo_hub) [12]))) 12)
       = [status_msg 1, list_msg [] 5]
   \<and> sockets (broadcast (list_msg [] 5)
              (checkHeartbeat (pongs (checkHeartbeat demo_hub) [12]))) 11
       = sockets (checkHeartbeat (pongs (checkHeartbeat demo_hub) [12])) 11"
proof -
  have d: "distinct (clients demo_hub)" and m: "11 \<in> set (clients demo_hub)"
    and n: "11 \<notin> set [12::nat]"
    by (simp_all add: demo_hub_clients)
  show ?thesis
    using heartbeat_eviction [OF d m n, where m = "list_msg [] 5" and x = 12]
    by (simp add: demo_hub_clients demo_hub_socket1 demo_hub_socket2)
qed

section \<open>Lifecycle events and the process list refresh\<close>

lemma on_process_event_pending:
  "pendingLists (fst (on_process_event packet now now2 r)) = Suc (pendingLists (fst r))"
  by (simp add: on_process_event_def broadcastProcessList_def Let_def)

lemma lifecycle_run_pending:
  "pendingLists (fst (lifecycle_run r evs)) = pendingLists (fst r) + length evs"
  by (induction evs rule: rev_induct)
     (auto simp: lifecycle_run_def lifecycle_step_def on_process_event_pending split: prod.splits)

text \<open>
  Claim C5, as stated, has a burst of lifecycle events trigger no further refresh while
  one is already scheduled. The listener has no debounce: with the 2 s timer set and a
  refresh still pending, each of two lifecycle events in a row calls \<open>pm2API.list()\<close>
  once more.
\<close>

theorem lifecycle_burst_not_debounced:
  "metricsInterval (fst (startMetricsPolling (PM2EventBus_init, demo_hub)))
   \<and> pendingLists (fst (startMetricsPolling (PM2EventBus_init, demo_hub))) = 1
   \<and> pendingLists (fst (on_process_event exit_packet 1 1
         (startMetricsPolling (PM2EventBus_init, demo_hub)))) = 2
   \<and> pendingLists (fst (on_process_event exit_packet 2 2
         (on_process_event exit_packet 1 1
            (startMetricsPolling (PM2EventBus_init, demo_hub))))) = 3"
  by (simp add: on_process_event_pending)
     (simp add: startMetricsPolling_def broadcastProcessList_def PM2EventBus_init_def Let_def)

text \<open>
  Claim C5, amended. Every lifecycle event is broadcast as a \<open>PROCESS_EVENT\<close> to
  every session of the set whose socket is open and accepts the send, whatever it
  subscribed to, and the listener itself calls \<open>broadcastProcessList\<close> at once,
  outside the 2 s timer: each event adds one pending call of \<open>pm2API.list()\<close>,
  whether or not others are pending, so a burst of \<open>n\<close> events adds \<open>n\<close>. A
  call that resolves is broadcast as a \<open>PROCESS_LIST_UPDATE\<close>.
\<close>

theorem lifecycle_event_refresh:
  "snd (on_process_event packet now now2 r) = broadcast (event_msg packet now now2) (snd r)
   \<and> (distinct (clients (snd r)) \<longrightarrow>
        (\<forall>c. sockets (snd (on_process_event packet now now2 r)) c =
           (if c \<in> set (clients (snd r)) \<and> readyState (sockets (snd r) c) = OPEN
               \<and> \<not> sendThrows (sockets (snd r) c)
            then (sockets (snd r) c)\<lparr>sent := sent (sockets (snd r) c) @ [event_msg packet now now2]\<rparr>
            else sockets (snd r) c)))
   \<and> pendingLists (fst (on_process_event packet now now2 r)) = Suc (pendingLists (fst r))
   \<and> pendingLists (fst (lifecycle_run r evs)) = pendingLists (fst r) + length evs
   \<and> snd (broadcastProcessList_settled (ListResolved ps) now r) =
       broadcast (list_msg ps now) (snd r)
   \<and> pendingLists (fst (broadcastProcessList_settled outcome now r)) = pendingLists (fst r) - 1"
proof -
  have b: "snd (on_process_event packet now now2 r) = broadcast (event_msg packet now now2) (snd r)"
    by (simp add: on_process_event_def broadcastProcessList_def event_msg_def Let_def)
  have s: "snd (broadcastProcessList_settled (ListResolved ps) now r) =
       broadcast (list_msg ps now) (snd r)"
    by (simp add: broadcastProcessList_settled_def list_msg_def)
  have p: "pendingLists (fst (broadcastProcessList_settled outcome now r)) = pendingLists (fst r) - 1"
    by (simp add: broadcastProcessList_settled_def split: listOutcome.splits)
  show ?thesis
    by (simp add: lifecycle_run_pending on_process_event_pending s p)
       (simp add: b broadcast_fan fan_sockets delivers_def)
qed

theorem lifecycle_event_refresh_witness:
  "sent (sockets (snd (on_process_event exit_packet 1 2 (PM2EventBus_init, demo_hub))) 11)
     = [status_msg 0, event_msg exit_packet 1 2]
   \<and> pendingLists (fst (on_process_event exit_packet 1 2 (PM2EventBus_init, demo_hub))) = 1"
proof -
  let ?r = "(PM2EventBus_init, demo_hub)"
  note t = lifecycle_event_refresh [where r = ?r and packet = exit_packet and now = 1
      and ?now2.0 = 2 and evs = "[]" and ps = "[]" and outcome = ListRejected]
  have d: "distinct (clients (snd ?r))"
    by (simp add: demo_hub_clients)
  from t d have "\<forall>c. sockets (snd (on_process_event exit_packet 1 2 ?r)) c =
           (if c \<in> set (clients (snd ?r)) \<and> readyState (sockets (snd ?r) c) = OPEN
               \<and> \<not> sendThrows (sockets (snd ?r) c)
            then (sockets (snd ?r) c)\<lparr>sent := sent (sockets (snd ?r) c) @ [event_msg exit_packet 1 2]\<rparr>
            else sockets (snd ?r) c)"
    by blast
  then have a: "sent (sockets (snd (on_process_event exit_packet 1 2 ?r)) 11)
     = [status_msg 0, event_msg exit_packet 1 2]"
    by (simp add: demo_hub_clients demo_hub_socket1)
  from t have "pendingLists (fst (on_process_event exit_packet 1 2 ?r)) = Suc (pendingLists (fst ?r))"
    by blast
  then have b: "pendingLists (fst (on_process_event exit_packet 1 2 ?r)) = 1"
    by (simp add: PM2EventBus_init_def)
  from a b show ?thesis by simp
qed

section \<open>The upstream connection\<close>

lemma client_inv_init: "client_inv PM2Client_init"
  by (simp add: client_inv_def PM2Client_init_def)

lemma client_inv_connect: "client_inv c \<Longrightarrow> client_inv (snd (connect c))"
  by (auto simp: client_inv_def connect_def)

lemma client_inv_disconnect: "client_inv c \<Longrightarrow> client_inv (snd (disconnect c))"
  by (auto simp: client_inv_def disconnect_def)

lemma client_inv_reconnect: "client_inv c \<Longrightarrow> client_inv (snd (reconnect c))"
  by (auto simp: client_inv_def reconnect_def disconnect_def Let_def)

lemma client_inv_callback:
  "client_inv c \<Longrightarrow> inFlight c \<noteq> 0 \<Longrightarrow> client_inv (snd (connect_callback err c))"
  by (auto simp: client_inv_def connect_callback_def Let_def split: option.splits if_splits)

lemma client_inv_step: "client_inv c \<Longrightarrow> client_inv (client_step c op)"
  by (cases op)
     (simp_all add: client_inv_connect client_inv_disconnect client_inv_reconnect
        client_inv_callback ensureConnected_def reconnect_timer_def)

lemma client_inv_run: "client_inv (client_run ops)"
  unfolding client_run_def
  by (induction ops rule: rev_induct) (simp_all add: client_inv_init client_inv_step)

text \<open>
  Claim C3, as stated, has a connect request made while \<open>Connecting\<close> return only
  once the attempt in flight resolves, so that \<open>ensureConnected\<close> never returns
  successfully unless the supervisor is connected. \<open>connect\<close> returns at once when
  \<open>connecting\<close> is set: after a first \<open>connect\<close>, whose attempt is still in flight,
  \<open>ensureConnected\<close> is fulfilled while the supervisor is not connected.
\<close>

theorem ensureConnected_returns_while_connecting:
  "connecting (client_run [OpConnect])
   \<and> fst (ensureConnected (client_run [OpConnect])) = Resolved
   \<and> \<not> connected (snd (ensureConnected (client_run [OpConnect])))"
  by (simp add: client_run_def connect_def ensureConnected_def PM2Client_init_def)

text \<open>
  Claim C3, amended. After any sequence of calls, timers and callbacks, at most one
  call of \<open>pm2.connect\<close> is in flight, and one is in flight exactly when
  \<open>connecting\<close> is set. A \<open>connect\<close> made then, directly or through
  \<open>ensureConnected\<close>, starts no attempt and changes neither flag. When no attempt
  is in flight, \<open>ensureConnected\<close> is fulfilled at once
  only if the supervisor is connected; otherwise it starts the one attempt and its
  promise is settled by the callback: fulfilled with the supervisor connected, or
  rejected with a \<open>ConnectionError\<close>.
\<close>

theorem single_connection_attempt:
  "inFlight (client_run ops) \<le> 1
   \<and> (inFlight (client_run ops) = 1 \<longleftrightarrow> connecting (client_run ops))
   \<and> (connecting (client_run ops) \<longrightarrow>
        fst (connect (client_run ops)) = Resolved
      \<and> inFlight (snd (connect (client_run ops))) = inFlight (client_run ops)
      \<and> connecting (snd (connect (client_run ops)))
      \<and> connected (snd (connect (client_run ops))) = connected (client_run ops)
      \<and> ensureConnected (client_run ops) = connect (client_run ops))
   \<and> (\<not> connecting (client_run ops) \<and> fst (ensureConnected (client_run ops)) = Resolved \<longrightarrow>
        connected (snd (ensureConnected (client_run ops))))
   \<and> (\<not> connecting (client_run ops) \<and> fst (ensureConnected (client_run ops)) = Pending \<longrightarrow>
        inFlight (snd (ensureConnected (client_run ops))) = 1
      \<and> connected (snd (connect_callback None (snd (ensureConnected (client_run ops)))))
      \<and> fst (connect_callback None (snd (ensureConnected (client_run ops)))) = Resolved
      \<and> fst (connect_callback (Some e) (snd (ensureConnected (client_run ops))))
          = Rejected (ConnectionError [Txt e]))"
proof -
  have inv: "client_inv (client_run ops)" by (rule client_inv_run)
  show ?thesis
    using inv
    by (auto simp: client_inv_def connect_def ensureConnected_def connect_callback_def Let_def
          split: if_splits)
qed

theorem single_connection_attempt_witness:
  "inFlight (client_run [OpConnect, OpEnsureConnected, OpReconnect, OpReconnectTimer]) = 1
   \<and> connected (client_run [OpConnect, OpConnectCallback None, OpEnsureConnected])
   \<and> connected (snd (connect_callback None (snd (ensureConnected (client_run [])))))"
proof -
  have a: "connecting (client_run [OpConnect, OpEnsureConnected, OpReconnect, OpReconnectTimer])"
    by (simp add: client_run_def connect_def ensureConnected_def reconnect_def disconnect_def
          reconnect_timer_def backoff_def PM2Client_init_def Let_def)
  have b: "\<not> connecting (client_run [OpConnect, OpConnectCallback None])
           \<and> fst (ensureConnected (client_run [OpConnect, OpConnectCallback None])) = Resolved"
    by (simp add: client_run_def connect_def ensureConnected_def connect_callback_def
          PM2Client_init_def Let_def)
  have c: "\<not> connecting (client_run []) \<and> fst (ensureConnected (client_run [])) = Pending"
    by (simp add: client_run_def connect_def ensureConnected_def PM2Client_init_def)
  have 1: "inFlight (client_run [OpConnect, OpEnsureConnected, OpReconnect, OpReconnectTimer]) = 1"
    using single_connection_attempt
            [of "[OpConnect, OpEnsureConnected, OpReconnect, OpReconnectTimer]"] a
    by blast
  have 2: "connected (snd (ensureConnected (client_run [OpConnect, OpConnectCallback None])))"
    using single_connection_attempt [of "[OpConnect, OpConnectCallback None]"] b by blast
  have 3: "connected (snd (connect_callback None (snd (ensureConnected (client_run [])))))"
    using single_connection_attempt [of "[]"] c by blast
  from 1 2 3 show ?thesis by (simp add: client_run_def)
qed

lemma reconnect_proceeds:
  "reconnectAttempts c < maxReconnectAttempts c \<Longrightarrow>
   fst (reconnect c) = Inr (min (reconnectDelay c * 2 ^ reconnectAttempts c) (maxReconnectDelay c))
   \<and> reconnectAttempts (snd (reconnect c)) = Suc (reconnectAttempts c)
   \<and> maxReconnectAttempts (snd (reconnect c)) = maxReconnectAttempts c
   \<and> reconnectDelay (snd (reconnect c)) = reconnectDelay c
   \<and> maxReconnectDelay (snd (reconnect c)) = maxReconnectDelay c
   \<and> \<not> connected (snd (reconnect c))"
  by (simp add: reconnect_def backoff_def disconnect_def Let_def)

lemma failed_round_fields:
  "reconnectAttempts c < maxReconnectAttempts c \<Longrightarrow>
   reconnectAttempts (failed_round e c) = Suc (reconnectAttempts c)
   \<and> maxReconnectAttempts (failed_round e c) = maxReconnectAttempts c
   \<and> reconnectDelay (failed_round e c) = reconnectDelay c
   \<and> maxReconnectDelay (failed_round e c) = maxReconnectDelay c"
  using reconnect_proceeds [of c]
  by (simp add: failed_round_def reconnect_timer_def connect_def connect_callback_def Let_def)

lemma backoff_mono:
  "min (b * 2 ^ a) (m::nat) \<le> min (b * 2 ^ Suc a) m"
  by (simp add: min_le_iff_disj)

text \<open>
  Claim C6, as stated, has \<open>reconnect\<close> fail once the attempt counter exceeds the
  ceiling. The guard is \<open>reconnectAttempts >= maxReconnectAttempts\<close>: after ten calls
  the counter is 10, which does not exceed the ceiling of 10, and \<open>reconnect\<close> throws.
\<close>

theorem reconnect_fails_at_ceiling:
  "reconnectAttempts (client_run [OpReconnect, OpReconnect, OpReconnect, OpReconnect, OpReconnect,
                                  OpReconnect, OpReconnect, OpReconnect, OpReconnect, OpReconnect]) = 10
   \<and> maxReconnectAttempts (client_run [OpReconnect, OpReconnect, OpReconnect, OpReconnect, OpReconnect,
                                  OpReconnect, OpReconnect, OpReconnect, OpReconnect, OpReconnect]) = 10
   \<and> isl (fst (reconnect (client_run [OpReconnect, OpReconnect, OpReconnect, OpReconnect, OpReconnect,
                                  OpReconnect, OpReconnect, OpReconnect, OpReconnect, OpReconnect])))"
  by (simp add: client_run_def reconnect_def backoff_def disconnect_def PM2Client_init_def Let_def)

text \<open>
  Claim C6, amended. While the counter is below the ceiling, \<open>reconnect\<close> counts the
  attempt and waits \<open>min (reconnectDelay * 2 ^ attempt) maxReconnectDelay\<close>, where
  \<open>attempt\<close> is the counter before the call; after a failed round the next delay is
  the one for \<open>attempt + 1\<close>, which is not smaller. A successful connection sets the
  counter to zero, so the next delay is \<open>min reconnectDelay maxReconnectDelay\<close>.
  \<open>reconnect\<close> throws a \<open>ConnectionError\<close>, leaving the state as it is, exactly
  when the counter has reached the ceiling.
\<close>

theorem reconnect_backoff:
  "(reconnectAttempts c < maxReconnectAttempts c \<longrightarrow>
      fst (reconnect c) = Inr (min (reconnectDelay c * 2 ^ reconnectAttempts c) (maxReconnectDelay c))
    \<and> reconnectAttempts (snd (reconnect c)) = Suc (reconnectAttempts c))
   \<and> (Suc (reconnectAttempts c) < maxReconnectAttempts c \<longrightarrow>
      fst (reconnect (failed_round e c)) =
        Inr (min (reconnectDelay c * 2 ^ Suc (reconnectAttempts c)) (maxReconnectDelay c))
    \<and> min (reconnectDelay c * 2 ^ reconnectAttempts c) (maxReconnectDelay c)
        \<le> min (reconnectDelay c * 2 ^ Suc (reconnectAttempts c)) (maxReconnectDelay c))
   \<and> reconnectAttempts (snd (connect_callback None c)) = 0
   \<and> (0 < maxReconnectAttempts c \<longrightarrow>
      fst (reconnect (snd (connect_callback None c))) =
        Inr (min (reconnectDelay c) (maxReconnectDelay c)))
   \<and> (isl (fst (reconnect c)) \<longleftrightarrow> maxReconnectAttempts c \<le> reconnectAttempts c)
   \<and> (maxReconnectAttempts c \<le> reconnectAttempts c \<longrightarrow>
      reconnect c =
        (Inl (ConnectionError [Txt ''Failed to reconnect after '',
                               Num (int (maxReconnectAttempts c)), Txt '' attempts'']), c))"
proof (intro conjI impI)
  assume a: "reconnectAttempts c < maxReconnectAttempts c"
  show "fst (reconnect c) = Inr (min (reconnectDelay c * 2 ^ reconnectAttempts c) (maxReconnectDelay c))"
    using reconnect_proceeds [OF a] by simp
  show "reconnectAttempts (snd (reconnect c)) = Suc (reconnectAttempts c)"
    using reconnect_proceeds [OF a] by simp
next
  assume a: "Suc (reconnectAttempts c) < maxReconnectAttempts c"
  then have b: "reconnectAttempts c < maxReconnectAttempts c" by simp
  have f: "reconnectAttempts (failed_round e c) < maxReconnectAttempts (failed_round e c)"
    using a failed_round_fields [OF b, of e] by simp
  show "fst (reconnect (failed_round e c)) =
        Inr (min (reconnectDelay c * 2 ^ Suc (reconnectAttempts c)) (maxReconnectDelay c))"
    using reconnect_proceeds [OF f] failed_round_fields [OF b, of e] by simp
  show "min (reconnectDelay c * 2 ^ reconnectAttempts c) (maxReconnectDelay c)
        \<le> min (reconnectDelay c * 2 ^ Suc (reconnectAttempts c)) (maxReconnectDelay c)"
    by (rule backoff_mono)
next
  show "reconnectAttempts (snd (connect_callback None c)) = 0"
    by (simp add: connect_callback_def Let_def)
next
  assume "0 < maxReconnectAttempts c"
  then show "fst (reconnect (snd (connect_callback None c))) =
        Inr (min (reconnectDelay c) (maxReconnectDelay c))"
    by (simp add: connect_callback_def reconnect_def backoff_def disconnect_def Let_def)
next
  show "isl (fst (reconnect c)) \<longleftrightarrow> maxReconnectAttempts c \<le> reconnectAttempts c"
    by (simp add: reconnect_def Let_def)
next
  assume "maxReconnectAttempts c \<le> reconnectAttempts c"
  then show "reconnect c =
        (Inl (ConnectionError [Txt ''Failed to reconnect after '',
                               Num (int (maxReconnectAttempts c)), Txt '' attempts'']), c)"
    by (simp add: reconnect_def)
qed

theorem reconnect_backoff_witness:
  "fst (reconnect PM2Client_init) = Inr 1000
   \<and> fst (reconnect (failed_round ''refused'' PM2Client_init)) = Inr 2000
   \<and> fst (reconnect (snd (connect_callback None PM2Client_init))) = Inr 1000
   \<and> reconnect (PM2Client_init\<lparr>reconnectAttempts := 10\<rparr>) =
       (Inl (ConnectionError [Txt ''Failed to reconnect after '', Num 10, Txt '' attempts'']),
        PM2Client_init\<lparr>reconnectAttempts := 10\<rparr>)"
proof -
  have 1: "reconnectAttempts PM2Client_init < maxReconnectAttempts PM2Client_init"
    "Suc (reconnectAttempts PM2Client_init) < maxReconnectAttempts PM2Client_init"
    "0 < maxReconnectAttempts PM2Client_init"
    by (simp_all add: PM2Client_init_def)
  have 2: "maxReconnectAttempts (PM2Client_init\<lparr>reconnectAttempts := 10\<rparr>)
             \<le> reconnectAttempts (PM2Client_init\<lparr>reconnectAttempts := 10\<rparr>)"
    by (simp add: PM2Client_init_def)
  have a: "fst (reconnect PM2Client_init) = Inr 1000
     \<and> fst (reconnect (failed_round ''refused'' PM2Client_init)) = Inr 2000
     \<and> fst (reconnect (snd (connect_callback None PM2Client_init))) = Inr 1000"
    using reconnect_backoff [of PM2Client_init "''refused''"] 1
    by (simp add: PM2Client_init_def)
  have b: "reconnect (PM2Client_init\<lparr>reconnectAttempts := 10\<rparr>) =
       (Inl (ConnectionError [Txt ''Failed to reconnect after '', Num 10, Txt '' attempts'']),
        PM2Client_init\<lparr>reconnectAttempts := 10\<rparr>)"
    using reconnect_backoff [of "PM2Client_init\<lparr>reconnectAttempts := 10\<rparr>" "''refused''"] 2
    by (simp add: PM2Client_init_def)
  from a b show ?thesis by simp
qed

section \<open>Reading the log buffer\<close>

lemma demo_bus_logBuffer:
  "logBuffer demo_bus =
     [\<lparr>id' = ''u1'', processId = 7, processName = ''api'', type' = Out, message = ''started'',
       timestamp = 100\<rparr>,
      \<lparr>id' = ''u2'', processId = 3, processName = ''db'', type' = Err, message = ''oops'',
       timestamp = 102\<rparr>]"
  by (simp add: demo_bus_def demo_logs_def ingest_def ingest_step_def handleLog_logBuffer
        handleLog_maxBufferSize mkLogEntry_def PM2EventBus_init_def)

text \<open>
  Claim C7 at \<open>limit = 0\<close>: \<open>logs.slice(-0)\<close> is \<open>logs.slice(0)\<close>, so the call
  returns every matching entry of the buffer instead of none.
\<close>

theorem getRecentLogs_limit_zero:
  "getRecentLogs None 0 demo_bus = logBuffer demo_bus
   \<and> length (getRecentLogs None 0 demo_bus) = 2
   \<and> length (getRecentLogs (Some 7) 0 demo_bus) = 1"
  by (simp add: getRecentLogs_def slice_def demo_bus_logBuffer Let_def)

lemma slice_neg:
  "0 < n \<Longrightarrow> slice (- n) xs = drop (length xs - nat n) xs"
proof -
  assume n: "0 < n"
  have "nat (max (int (length xs) + - n) 0) = length xs - nat n"
    using n by (simp add: max_def) linarith
  with n show ?thesis by (simp add: slice_def)
qed

text \<open>
  For a positive limit \<open>getRecentLogs\<close> does return the last \<open>limit\<close> matching
  entries in arrival order: at most \<open>limit\<close> of them, none of another process. It
  reads the buffer and yields a list; there is no state for it to change.
\<close>

theorem getRecentLogs_positive_limit:
  assumes "0 < limit"
  shows "getRecentLogs None limit b = drop (length (logBuffer b) - nat limit) (logBuffer b)
       \<and> getRecentLogs (Some p) limit b =
           drop (length (filter (\<lambda>log. processId log = p) (logBuffer b)) - nat limit)
                (filter (\<lambda>log. processId log = p) (logBuffer b))
       \<and> int (length (getRecentLogs pid_opt limit b)) \<le> limit
       \<and> (\<forall>e \<in> set (getRecentLogs (Some p) limit b). processId e = p)"
proof -
  have n: "getRecentLogs None limit b = drop (length (logBuffer b) - nat limit) (logBuffer b)"
    using assms by (simp add: getRecentLogs_def slice_neg Let_def)
  have s: "getRecentLogs (Some p) limit b =
           drop (length (filter (\<lambda>log. processId log = p) (logBuffer b)) - nat limit)
                (filter (\<lambda>log. processId log = p) (logBuffer b))"
    using assms by (simp add: getRecentLogs_def slice_neg Let_def)
  have l: "int (length (getRecentLogs pid_opt limit b)) \<le> limit"
    using assms by (cases pid_opt) (simp_all add: getRecentLogs_def slice_neg Let_def)
  have m: "\<forall>e \<in> set (getRecentLogs (Some p) limit b). processId e = p"
    unfolding s by (auto dest: in_set_dropD)
  from n s l m show ?thesis by blast
qed

theorem getRecentLogs_positive_limit_witness:
  "getRecentLogs None 1 demo_bus =
     [\<lparr>id' = ''u2'', processId = 3, processName = ''db'', type' = Err, message = ''oops'',
       timestamp = 102\<rparr>]
   \<and> getRecentLogs (Some 7) 5 demo_bus =
     [\<lparr>id' = ''u1'', processId = 7, processName = ''api'', type' = Out, message = ''started'',
       timestamp = 100\<rparr>]"
proof -
  have a: "(0::int) < 1" and b: "(0::int) < 5" by simp_all
  from getRecentLogs_positive_limit [OF a, of demo_bus 7 None]
  have 1: "getRecentLogs None 1 demo_bus =
             drop (length (logBuffer demo_bus) - nat 1) (logBuffer demo_bus)"
    by (rule conjunct1)
  from getRecentLogs_positive_limit [OF b, of demo_bus 7 None]
  have 2: "getRecentLogs (Some 7) 5 demo_bus =
             drop (length (filter (\<lambda>log. processId log = 7) (logBuffer demo_bus)) - nat 5)
                  (filter (\<lambda>log. processId log = 7) (logBuffer demo_bus))"
    by (rule conjunct1 [OF conjunct2])
  show ?thesis
    unfolding 1 2 by (simp add: demo_bus_logBuffer)
qed

section \<open>Client state\<close>

text \<open>
  Claim C9. Applying a \<open>PROCESS_LIST_UPDATE\<close> a second time leaves the client state
  as the first application made it: \<open>setProcesses\<close> replaces the process list by the
  payload and touches nothing that depends on the list it replaces.
\<close>

theorem snapshot_idempotent:
  assumes "msg_type m = PROCESS_LIST_UPDATE" and "msg_data m = ProcessListUpdateData ps"
  shows "client_handleMessage m (client_handleMessage m st) = client_handleMessage m st
       \<and> client_handleMessage m st = (setProcesses (Some ps) (fst st), snd st)
       \<and> processes (fst (client_handleMessage m st)) = Some ps
       \<and> setProcesses q (setProcesses q p) = setProcesses q p"
  using assms by (simp add: client_handleMessage_def setProcesses_def)

theorem snapshot_idempotent_witness:
  "client_handleMessage (list_msg [demo_process] 7)
     (client_handleMessage (list_msg [demo_process] 7) demo_store)
   = (\<lparr>processes = Some [demo_process], selectedProcessId = None, isLoading = False,
        error = None\<rparr>,
      \<lparr>logs = [], isPaused = False, maxLogs = 10000\<rparr>)"
proof -
  have t: "msg_type (list_msg [demo_process] 7) = PROCESS_LIST_UPDATE"
    and d: "msg_data (list_msg [demo_process] 7) = ProcessListUpdateData [demo_process]"
    by (simp_all add: list_msg_def)
  note i = snapshot_idempotent [OF t d, of demo_store]
  from i have e: "client_handleMessage (list_msg [demo_process] 7)
       (client_handleMessage (list_msg [demo_process] 7) demo_store)
     = client_handleMessage (list_msg [demo_process] 7) demo_store"
    by blast
  from i have f: "client_handleMessage (list_msg [demo_process] 7) demo_store
     = (setProcesses (Some [demo_process]) (fst demo_store), snd demo_store)"
    by blast
  from e f have "client_handleMessage (list_msg [demo_process] 7)
       (client_handleMessage (list_msg [demo_process] 7) demo_store)
     = (setProcesses (Some [demo_process]) (fst demo_store), snd demo_store)"
    by (rule trans)
  then show ?thesis
    by (simp add: demo_store_def setProcesses_def)
qed

end
